theory Spec2Isabelle
  imports Main "HOL-Library.AList" "HOL-Library.Char_ord" "HOL-Library.List_Lexorder"
begin

section \<open>Values, state objects and change records\<close>

text \<open>
  The module \<^verbatim>\<open>glue_jupyter/state_traitlets_helpers.py\<close> converts a glue state object
  into a nested dictionary (\<^verbatim>\<open>state_to_dict\<close>), applies such a dictionary back onto a
  live state object (\<^verbatim>\<open>update_state_from_dict\<close>) and declares the traitlet
  \<^verbatim>\<open>GlueState\<close> that holds a state object in a widget.

  Python values are dynamically typed, so one datatype holds every value the two
  functions can meet. A dictionary is an association list (its order is the insertion
  order the source iterates in); its keys are integers (positions) or strings (names).
  \<^verbatim>\<open>VOpaque\<close> stands for any other object, identified by a number: a \<^verbatim>\<open>Data\<close>, a
  \<^verbatim>\<open>Subset\<close>, a \<^verbatim>\<open>ComponentID\<close>, a colormap. \<^verbatim>\<open>VList\<close> is a plain list,
  \<^verbatim>\<open>VCallbackList\<close> an instance of \<^verbatim>\<open>CallbackList\<close>, \<^verbatim>\<open>VState\<close> an instance of
  \<^verbatim>\<open>State\<close>.

  A state object is what the host library (glue) lets the module see of it: the
  callback properties with their current values (\<^verbatim>\<open>props\<close>), the names of its other
  attributes, which \<^verbatim>\<open>dir\<close> lists too (\<^verbatim>\<open>other_attrs\<close>), and the priorities that
  \<^verbatim>\<open>_update_priority\<close> answers (\<^verbatim>\<open>priorities\<close>; a name without an entry has
  priority 0, the default of glue).
\<close>

datatype pykey = KInt int | KStr string

datatype pyval =
    VNone
  | VBool bool
  | VInt int
  | VStr string
  | VOpaque nat
  | VList "pyval list"
  | VDict "(pykey \<times> pyval) list"
  | VCallbackList "pyval list"
  | VState state
and state =
    State (props: "(string \<times> pyval) list") (other_attrs: "string list")
          (priorities: "(string \<times> int) list")

datatype error =
    TypeError
  | IndexError
  | KeyError
  | AttributeError
  | TraitError string
  | HostError nat

definition MAGIC_IGNORE :: string where
  "MAGIC_IGNORE = ''611cfa3b-ebb5-42d2-b5c7-ba9bce8b51a4''"

subsection \<open>What the host answers about a state object\<close>

text \<open>\<^verbatim>\<open>dir(state)\<close>: the attribute names, each once, in alphabetical order.\<close>

definition dir_py :: "state \<Rightarrow> string list" where
  "dir_py s = sort (remdups (map fst (props s) @ other_attrs s))"

definition is_callback_property :: "state \<Rightarrow> string \<Rightarrow> bool" where
  "is_callback_property s name = (map_of (props s) name \<noteq> None)"

text \<open>
  \<^verbatim>\<open>getattr(state, name)\<close>; the source reads only names for which
  \<^verbatim>\<open>is_callback_property\<close> holds.
\<close>

definition getattr :: "state \<Rightarrow> string \<Rightarrow> pyval" where
  "getattr s name = the (map_of (props s) name)"

text \<open>
  \<^verbatim>\<open>setattr(state, name, value)\<close> on a callback property: the value is stored under
  the name. (What callbacks registered by the host do on a change is outside the module.)
\<close>

definition setattr :: "state \<Rightarrow> string \<Rightarrow> pyval \<Rightarrow> state" where
  "setattr s name v = State (AList.update name v (props s)) (other_attrs s) (priorities s)"

definition update_priority :: "state \<Rightarrow> string \<Rightarrow> int" where
  "update_priority s name = (case map_of (priorities s) name of Some p \<Rightarrow> p | None \<Rightarrow> 0)"

fun startswith_underscore :: "string \<Rightarrow> bool" where
  "startswith_underscore [] = False"
| "startswith_underscore (c # cs) = (c = CHR ''_'')"

section \<open>Serialisation: \<^verbatim>\<open>state_to_dict\<close>\<close>

text \<open>A dictionary with string keys as a value.\<close>

definition str_dict :: "(string \<times> pyval) list \<Rightarrow> pyval" where
  "str_dict d = VDict (map (\<lambda>(k, v). (KStr k, v)) d)"

lemma size_lookup_less:
  "map_of ps name = Some v \<Longrightarrow> size v < Suc (size_list (size_prod (\<lambda>_. 0) size) ps)"
  by (induction ps) (auto split: if_splits)

lemma size_member_less: "v \<in> set xs \<Longrightarrow> size v < Suc (size_list size xs)"
  by (induction xs) auto

function state_to_dict :: "state \<Rightarrow> (string \<times> pyval) list" where
  "state_to_dict s =
     map (\<lambda>name. (name,
            (case getattr s name of
               VCallbackList xs \<Rightarrow>
                 VDict (map (\<lambda>(index, v). (KInt (int index),
                          (case v of VState t \<Rightarrow> str_dict (state_to_dict t) | _ \<Rightarrow> v)))
                        (enumerate 0 xs))
             | item \<Rightarrow> item)))
         (filter (\<lambda>name. \<not> startswith_underscore name \<and> is_callback_property s name)
                 (dir_py s))"
  by pat_completeness auto
termination
proof (relation "measure size", goal_cases)
  case 1
  show ?case by simp
next
  case (2 s name xs p index v t)
  from 2(1) obtain w where w: "map_of (props s) name = Some w"
    by (auto simp: is_callback_property_def)
  with 2(2) have "map_of (props s) name = Some (VCallbackList xs)"
    by (simp add: getattr_def)
  then have a: "size (VCallbackList xs) < Suc (size_list (size_prod (\<lambda>_. 0) size) (props s))"
    by (rule size_lookup_less)
  from 2(3,4) have "v \<in> set xs"
    by (auto simp: in_set_enumerate_eq)
  with 2(5) have "VState t \<in> set xs" by simp
  then have b: "size (VState t) < Suc (size_list size xs)"
    by (rule size_member_less)
  from a b show ?case
    by (cases s) simp
qed

declare state_to_dict.simps [simp del]

section \<open>Patch-back: \<^verbatim>\<open>update_state_from_dict\<close>\<close>

text \<open>
  The source mutates the state object in place and may raise half-way. The model
  returns an outcome: the error raised, if any, the state object as the call leaves it,
  and the assignments made, in the order they were made. An assignment is a
  \<^verbatim>\<open>setattr\<close> on a property, a store into position \<open>i\<close> of the collection held by a
  property, or a call of the item's own \<^verbatim>\<open>update_from_dict\<close> at position \<open>i\<close>.
\<close>

datatype event =
    SetAttr string pyval
  | SetItem string nat pyval
  | UpdateItem string nat pyval

fun event_name :: "event \<Rightarrow> string" where
  "event_name (SetAttr name v) = name"
| "event_name (SetItem name i v) = name"
| "event_name (UpdateItem name i v) = name"

datatype outcome =
  Outcome (raised: "error option") (final_state: state) (events: "event list")

text \<open>
  \<^verbatim>\<open>State.update_from_dict\<close> is a method of the host library. It is a parameter of
  the model: given the item and the incoming value it answers the item as the call
  leaves it and the error it raised, if any.
\<close>

type_synonym host_update = "state \<Rightarrow> pyval \<Rightarrow> state \<times> error option"

subsection \<open>The operators \<^verbatim>\<open>in\<close> and \<^verbatim>\<open>[]\<close> on an incoming value\<close>

text \<open>
  \<^verbatim>\<open>i in c\<close> for an integer \<open>i\<close>: on a dictionary, whether \<open>i\<close> is a key; on a list,
  whether an element equals \<open>i\<close> (\<^verbatim>\<open>True == 1\<close> and \<^verbatim>\<open>False == 0\<close> in Python); on a
  string and on a value that is no container, a \<^verbatim>\<open>TypeError\<close>.
\<close>

fun py_eq_int :: "pyval \<Rightarrow> int \<Rightarrow> bool" where
  "py_eq_int (VInt j) i = (j = i)"
| "py_eq_int (VBool b) i = (i = (if b then 1 else 0))"
| "py_eq_int _ i = False"

fun py_contains :: "nat \<Rightarrow> pyval \<Rightarrow> error + bool" where
  "py_contains i (VDict d) = Inr (map_of d (KInt (int i)) \<noteq> None)"
| "py_contains i (VList xs) = Inr (list_ex (\<lambda>x. py_eq_int x (int i)) xs)"
| "py_contains i (VCallbackList xs) = Inr (list_ex (\<lambda>x. py_eq_int x (int i)) xs)"
| "py_contains i _ = Inl TypeError"

text \<open>\<^verbatim>\<open>c[i]\<close> for an integer \<open>i \<ge> 0\<close>.\<close>

fun py_getitem :: "pyval \<Rightarrow> nat \<Rightarrow> error + pyval" where
  "py_getitem (VDict d) i =
     (case map_of d (KInt (int i)) of Some v \<Rightarrow> Inr v | None \<Rightarrow> Inl KeyError)"
| "py_getitem (VList xs) i = (if i < length xs then Inr (xs ! i) else Inl IndexError)"
| "py_getitem (VCallbackList xs) i = (if i < length xs then Inr (xs ! i) else Inl IndexError)"
| "py_getitem _ i = Inl TypeError"

subsection \<open>The loop over the positions of a collection\<close>

text \<open>
  \<^verbatim>\<open>for i in range(len(callback_list))\<close>, lines 45 to 50: \<open>sub\<close> is
  \<^verbatim>\<open>changes[name]\<close>, \<open>xs\<close> the items of the live collection, \<open>l\<close> the assignments made
  so far. The loop stops at the first error.
\<close>

fun update_items ::
  "host_update \<Rightarrow> string \<Rightarrow> pyval \<Rightarrow> nat list \<Rightarrow> pyval list \<Rightarrow> event list
     \<Rightarrow> error option \<times> pyval list \<times> event list" where
  "update_items upd name sub [] xs l = (None, xs, l)"
| "update_items upd name sub (i # is) xs l =
     (case py_contains i sub of
        Inl e \<Rightarrow> (Some e, xs, l)
      | Inr False \<Rightarrow> update_items upd name sub is xs l
      | Inr True \<Rightarrow>
          (case xs ! i of
             VState t \<Rightarrow>
               (case py_getitem sub i of
                  Inl e \<Rightarrow> (Some e, xs, l)
                | Inr v \<Rightarrow>
                    (case upd t v of
                       (t', None) \<Rightarrow>
                         update_items upd name sub is (xs[i := VState t'])
                           (l @ [UpdateItem name i v])
                     | (t', Some e) \<Rightarrow>
                         (Some e, xs[i := VState t'], l @ [UpdateItem name i v])))
           | _ \<Rightarrow>
               (case py_getitem sub i of
                  Inl e \<Rightarrow> (Some e, xs, l)
                | Inr v \<Rightarrow>
                    update_items upd name sub is (xs[i := v]) (l @ [SetItem name i v]))))"

subsection \<open>One property, one group, the whole record\<close>

text \<open>\<^verbatim>\<open>changes[name]\<close> for a key of the record.\<close>

definition changes_get :: "(string \<times> pyval) list \<Rightarrow> string \<Rightarrow> pyval" where
  "changes_get changes name = the (map_of changes name)"

text \<open>The body of \<^verbatim>\<open>for name in groups[priority]\<close>, lines 43 to 53.\<close>

definition update_name ::
  "host_update \<Rightarrow> (string \<times> pyval) list \<Rightarrow> outcome \<Rightarrow> string \<Rightarrow> outcome" where
  "update_name upd changes out name =
     (if raised out \<noteq> None then out
      else
        (case getattr (final_state out) name of
           VCallbackList xs \<Rightarrow>
             (case update_items upd name (changes_get changes name) [0..<length xs] xs
                     (events out) of
                (err, ys, l) \<Rightarrow>
                  Outcome err (setattr (final_state out) name (VCallbackList ys)) l)
         | _ \<Rightarrow>
             if changes_get changes name \<noteq> VStr MAGIC_IGNORE
             then Outcome None (setattr (final_state out) name (changes_get changes name))
                    (events out @ [SetAttr name (changes_get changes name)])
             else out))"

text \<open>
  \<^verbatim>\<open>groups\<close> is a \<^verbatim>\<open>defaultdict(list)\<close>: \<^verbatim>\<open>groups[p].append(name)\<close> adds the name
  to the list under \<open>p\<close>, which is created empty when \<open>p\<close> is a new key.
\<close>

fun groups_append :: "int \<Rightarrow> string \<Rightarrow> (int \<times> string list) list \<Rightarrow> (int \<times> string list) list"
  where
  "groups_append p name [] = [(p, [name])]"
| "groups_append p name ((q, names) # g) =
     (if p = q then (q, names @ [name]) # g else (q, names) # groups_append p name g)"

definition groups_get :: "(int \<times> string list) list \<Rightarrow> int \<Rightarrow> string list" where
  "groups_get g p = (case map_of g p of Some names \<Rightarrow> names | None \<Rightarrow> [])"

text \<open>Lines 36 to 39: the body of \<^verbatim>\<open>for name in changes\<close>, and the loop.\<close>

definition group_step ::
  "state \<Rightarrow> (int \<times> string list) list \<Rightarrow> string \<Rightarrow> (int \<times> string list) list" where
  "group_step s g name =
     (if is_callback_property s name
      then groups_append (update_priority s name) name g else g)"

definition build_groups :: "state \<Rightarrow> (string \<times> pyval) list \<Rightarrow> (int \<times> string list) list" where
  "build_groups s changes = foldl (group_step s) [] (map fst changes)"

text \<open>\<^verbatim>\<open>sorted(groups, reverse=True)\<close>: the keys of \<^verbatim>\<open>groups\<close>, greatest first.\<close>

definition sorted_reverse :: "(int \<times> string list) list \<Rightarrow> int list" where
  "sorted_reverse g = rev (sort (map fst g))"

definition update_state_from_dict ::
  "host_update \<Rightarrow> state \<Rightarrow> (string \<times> pyval) list \<Rightarrow> outcome" where
  "update_state_from_dict upd s changes =
     (if length changes = 0 then Outcome None s []
      else
        foldl (\<lambda>out priority.
                 foldl (update_name upd changes) out
                       (groups_get (build_groups s changes) priority))
              (Outcome None s [])
              (sorted_reverse (build_groups s changes)))"

text \<open>
  The names in the order in which the two nested loops of lines 41 and 42 visit them.
\<close>

definition processing_order :: "state \<Rightarrow> (string \<times> pyval) list \<Rightarrow> string list" where
  "processing_order s changes =
     concat (map (groups_get (build_groups s changes)) (sorted_reverse (build_groups s changes)))"

text \<open>What the loop leaves at position \<open>i\<close> when the incoming value is a dictionary.\<close>

definition patched_item :: "host_update \<Rightarrow> (pykey \<times> pyval) list \<Rightarrow> pyval list \<Rightarrow> nat \<Rightarrow> pyval" where
  "patched_item upd sub xs i =
     (case map_of sub (KInt (int i)) of
        None \<Rightarrow> xs ! i
      | Some v \<Rightarrow> (case xs ! i of VState t \<Rightarrow> VState (fst (upd t v)) | _ \<Rightarrow> v))"

text \<open>The entries of a record whose keys the state recognises as callback properties.\<close>

definition recognised :: "state \<Rightarrow> (string \<times> pyval) list \<Rightarrow> (string \<times> pyval) list" where
  "recognised s changes = filter (\<lambda>(name, v). is_callback_property s name) changes"

section \<open>The traitlet \<^verbatim>\<open>GlueState\<close>\<close>

text \<open>\<^verbatim>\<open>isinstance(value, State)\<close>.\<close>

fun is_State :: "pyval \<Rightarrow> bool" where
  "is_State (VState t) = True"
| "is_State _ = False"

text \<open>\<^verbatim>\<open>GlueState.validate\<close>, lines 78 to 83 (the widget \<^verbatim>\<open>obj\<close> is not used).\<close>

definition GlueState_validate :: "pyval \<Rightarrow> error + pyval" where
  "GlueState_validate v =
     (if v = VNone \<or> is_State v then Inr v
      else Inl (TraitError ''value should be a glue State instance''))"

text \<open>
  \<^verbatim>\<open>GlueState.set\<close>, lines 89 to 91. \<^verbatim>\<open>super().set(obj, state)\<close> is the setter of
  traitlets: it validates the value with \<^verbatim>\<open>validate\<close> and, when that does not raise,
  stores it as the value of the trait. Then \<^verbatim>\<open>state.add_global_callback\<close> is looked
  up on the value: a state object has the method, \<^verbatim>\<open>None\<close> has not
  (\<^verbatim>\<open>AttributeError\<close>). The outcome holds the error raised, if any, the value of the
  trait as the call leaves it, and whether the callback was registered; \<open>old\<close> is the
  value of the trait before the call.
\<close>

datatype set_outcome =
  SetOutcome (set_raised: "error option") (trait_value: pyval) (callback_registered: bool)

definition GlueState_set :: "pyval \<Rightarrow> pyval \<Rightarrow> set_outcome" where
  "GlueState_set old v =
     (case GlueState_validate v of
        Inl e \<Rightarrow> SetOutcome (Some e) old False
      | Inr w \<Rightarrow>
          if is_State w then SetOutcome None w True
          else SetOutcome (Some AttributeError) w False)"

section \<open>Round trips\<close>

text \<open>
  The values that are representable in JSON as they are: \<^verbatim>\<open>None\<close>, booleans, integers,
  strings, and plain lists and dictionaries of such values. A property holds a primitive
  value when it holds one of these or a collection (\<^verbatim>\<open>CallbackList\<close>) of them.
\<close>

fun primitive :: "pyval \<Rightarrow> bool" where
  "primitive VNone = True"
| "primitive (VBool b) = True"
| "primitive (VInt i) = True"
| "primitive (VStr s) = True"
| "primitive (VList xs) = list_all primitive xs"
| "primitive (VDict d) = list_all (\<lambda>(k, v). primitive v) d"
| "primitive (VOpaque n) = False"
| "primitive (VCallbackList xs) = False"
| "primitive (VState t) = False"

fun primitive_property :: "pyval \<Rightarrow> bool" where
  "primitive_property (VCallbackList xs) = list_all primitive xs"
| "primitive_property v = primitive v"

definition primitive_state :: "state \<Rightarrow> bool" where
  "primitive_state s = list_all (\<lambda>(name, v). primitive_property v) (props s)"

text \<open>
  Two state objects have the same shape when they have the same callback properties, in
  the same order, and each property holds a collection in both, of the same length, or in
  neither.
\<close>

fun shape :: "pyval \<Rightarrow> nat option" where
  "shape (VCallbackList xs) = Some (length xs)"
| "shape v = None"

definition same_shape :: "state \<Rightarrow> state \<Rightarrow> bool" where
  "same_shape s f =
     (map (\<lambda>(name, v). (name, shape v)) (props s) = map (\<lambda>(name, v). (name, shape v)) (props f))"

text \<open>
  What holds of the state being patched all along a round trip: it keeps the shape of the
  serialised state and holds primitive values only.
\<close>

definition patch_invariant :: "state \<Rightarrow> state \<Rightarrow> bool" where
  "patch_invariant s st =
     ((\<forall>n. map_option shape (map_of (props st) n) = map_option shape (map_of (props s) n)) \<and>
      (\<forall>n v. map_of (props st) n = Some v \<longrightarrow> primitive_property v))"

section \<open>Basic facts about the patcher\<close>

lemma props_setattr: "props (setattr s n v) = AList.update n v (props s)"
  by (simp add: setattr_def)

lemma other_attrs_setattr [simp]: "other_attrs (setattr s n v) = other_attrs s"
  by (simp add: setattr_def)

lemma priorities_setattr [simp]: "priorities (setattr s n v) = priorities s"
  by (simp add: setattr_def)

lemma keys_setattr:
  "is_callback_property s n \<Longrightarrow> map fst (props (setattr s n v)) = map fst (props s)"
  by (auto simp: props_setattr is_callback_property_def update_keys map_of_eq_None_iff)

lemma lookup_setattr:
  "map_of (props (setattr s n v)) m = (if m = n then Some v else map_of (props s) m)"
  by (simp add: props_setattr update_conv')

lemma update_items_length:
  "update_items upd name sub is xs l = (err, ys, l') \<Longrightarrow> length ys = length xs"
proof (induction "is" arbitrary: xs l)
  case Nil
  then show ?case by simp
next
  case (Cons i "is")
  then show ?case
    by (auto split: sum.splits bool.splits pyval.splits prod.splits option.splits)
qed

lemma update_items_events:
  "update_items upd name sub is xs l = (err, ys, l') \<Longrightarrow>
     \<exists>new. l' = l @ new \<and> (\<forall>e \<in> set new. event_name e = name)"
proof (induction "is" arbitrary: xs l)
  case Nil
  then show ?case by simp
next
  case (Cons i "is")
  then show ?case
    by (fastforce split: sum.splits bool.splits pyval.splits prod.splits option.splits)
qed

lemma update_name_cases [case_names stuck coll skip assign]:
  assumes "raised out \<noteq> None \<Longrightarrow> update_name upd ch out n = out \<Longrightarrow> P"
    and "\<And>xs err ys l. raised out = None \<Longrightarrow> getattr (final_state out) n = VCallbackList xs \<Longrightarrow>
           update_items upd n (changes_get ch n) [0..<length xs] xs (events out) = (err, ys, l) \<Longrightarrow>
           update_name upd ch out n
             = Outcome err (setattr (final_state out) n (VCallbackList ys)) l \<Longrightarrow> P"
    and "raised out = None \<Longrightarrow> (\<forall>xs. getattr (final_state out) n \<noteq> VCallbackList xs) \<Longrightarrow>
           changes_get ch n = VStr MAGIC_IGNORE \<Longrightarrow> update_name upd ch out n = out \<Longrightarrow> P"
    and "raised out = None \<Longrightarrow> (\<forall>xs. getattr (final_state out) n \<noteq> VCallbackList xs) \<Longrightarrow>
           changes_get ch n \<noteq> VStr MAGIC_IGNORE \<Longrightarrow>
           update_name upd ch out n
             = Outcome None (setattr (final_state out) n (changes_get ch n))
                 (events out @ [SetAttr n (changes_get ch n)]) \<Longrightarrow> P"
  shows P
proof (cases "raised out \<noteq> None")
  case True
  then show ?thesis using assms(1) by (simp add: update_name_def)
next
  case False
  note nr = this
  show ?thesis
  proof (cases "\<exists>xs. getattr (final_state out) n = VCallbackList xs")
    case True
    then obtain xs where xs: "getattr (final_state out) n = VCallbackList xs" by blast
    obtain err ys l where
      r: "update_items upd n (changes_get ch n) [0..<length xs] xs (events out) = (err, ys, l)"
      by (cases "update_items upd n (changes_get ch n) [0..<length xs] xs (events out)") auto
    show ?thesis
      using nr xs r by (intro assms(2)[OF _ xs r]) (simp_all add: update_name_def)
  next
    case False
    then have no: "\<forall>xs. getattr (final_state out) n \<noteq> VCallbackList xs" by blast
    show ?thesis
    proof (cases "changes_get ch n = VStr MAGIC_IGNORE")
      case True
      show ?thesis
        using nr no True
        by (intro assms(3)) (auto simp: update_name_def split: pyval.splits)
    next
      case False
      show ?thesis
        using nr no False
        by (intro assms(4)) (auto simp: update_name_def split: pyval.splits)
    qed
  qed
qed


lemma update_name_frame:
  "m \<noteq> n \<Longrightarrow> map_of (props (final_state (update_name upd ch out n))) m
     = map_of (props (final_state out)) m"
  by (rule update_name_cases[where out=out and upd=upd and ch=ch and n=n]) (simp_all add: lookup_setattr)

lemma update_name_keys:
  "is_callback_property (final_state out) n \<Longrightarrow>
     map fst (props (final_state (update_name upd ch out n))) = map fst (props (final_state out))"
  by (rule update_name_cases[where out=out and upd=upd and ch=ch and n=n]) (simp_all add: keys_setattr)

lemma update_name_other_attrs:
  "other_attrs (final_state (update_name upd ch out n)) = other_attrs (final_state out)"
  by (rule update_name_cases[where out=out and upd=upd and ch=ch and n=n]) simp_all

lemma update_name_priorities:
  "priorities (final_state (update_name upd ch out n)) = priorities (final_state out)"
  by (rule update_name_cases[where out=out and upd=upd and ch=ch and n=n]) simp_all

lemma update_name_events:
  "\<exists>new. events (update_name upd ch out n) = events out @ new \<and>
         (\<forall>e \<in> set new. event_name e = n)"
proof (rule update_name_cases[where out=out and upd=upd and ch=ch and n=n], goal_cases)
  case (2 xs err ys l)
  from update_items_events[OF 2(3)] 2(4) show ?case by simp
qed simp_all

lemma foldl_foldl_concat: "foldl (foldl f) a xss = foldl f a (concat xss)"
  by (induction xss arbitrary: a) simp_all

lemma update_state_from_dict_order:
  "update_state_from_dict upd s changes
     = foldl (update_name upd changes) (Outcome None s []) (processing_order s changes)"
proof (cases "changes = []")
  case True
  then show ?thesis
    by (simp add: update_state_from_dict_def processing_order_def build_groups_def
        sorted_reverse_def)
next
  case False
  have "foldl (\<lambda>out priority. foldl (update_name upd changes) out
                 (groups_get (build_groups s changes) priority)) a ps
        = foldl (update_name upd changes) a
            (concat (map (groups_get (build_groups s changes)) ps))" for a ps
    by (induction ps arbitrary: a) simp_all
  with False show ?thesis
    by (simp add: update_state_from_dict_def processing_order_def)
qed

subsection \<open>The groups and the order of processing\<close>

lemma groups_get_append:
  "groups_get (groups_append p n g) q = (if q = p then groups_get g p @ [n] else groups_get g q)"
  by (induction g) (auto simp: groups_get_def)

lemma groups_append_keys:
  "map fst (groups_append p n g)
     = (if p \<in> set (map fst g) then map fst g else map fst g @ [p])"
  by (induction g) (auto split: if_splits)

lemma groups_keys_append:
  "fst ` set (groups_append p n g) = insert p (fst ` set g)"
  using arg_cong[OF groups_append_keys[of p n g], of set] by (auto split: if_splits)

lemma groups_distinct_append:
  "distinct (map fst g) \<Longrightarrow> distinct (map fst (groups_append p n g))"
  by (simp add: groups_append_keys)

lemma build_groups_get_aux:
  "groups_get (foldl (group_step s) g ns) p
     = groups_get g p @ filter (\<lambda>n. is_callback_property s n \<and> update_priority s n = p) ns"
  by (induction ns arbitrary: g) (auto simp: group_step_def groups_get_append)

lemma build_groups_keys_aux:
  "fst ` set (foldl (group_step s) g ns)
     = fst ` set g \<union> update_priority s ` {n \<in> set ns. is_callback_property s n}"
  by (induction ns arbitrary: g) (auto simp: group_step_def groups_keys_append)

lemma build_groups_distinct_aux:
  "distinct (map fst g) \<Longrightarrow> distinct (map fst (foldl (group_step s) g ns))"
  by (induction ns arbitrary: g) (auto simp: group_step_def groups_distinct_append)

lemma build_groups_get:
  "groups_get (build_groups s changes) p
     = filter (\<lambda>n. is_callback_property s n \<and> update_priority s n = p) (map fst changes)"
  using build_groups_get_aux[of s "[]" "map fst changes" p]
  by (simp add: build_groups_def groups_get_def)

lemma build_groups_keys:
  "fst ` set (build_groups s changes)
     = update_priority s ` {n \<in> fst ` set changes. is_callback_property s n}"
  using build_groups_keys_aux[of s "[]" "map fst changes"]
  by (simp add: build_groups_def)

lemma build_groups_distinct: "distinct (map fst (build_groups s changes))"
  by (simp add: build_groups_def build_groups_distinct_aux)

lemma processing_order_set:
  "set (processing_order s changes) = {n \<in> fst ` set changes. is_callback_property s n}"
proof -
  have "set (processing_order s changes)
      = (\<Union>p \<in> fst ` set (build_groups s changes).
           {n \<in> fst ` set changes. is_callback_property s n \<and> update_priority s n = p})"
    by (auto simp: processing_order_def sorted_reverse_def build_groups_get)
  also have "\<dots> = {n \<in> fst ` set changes. is_callback_property s n}"
    unfolding build_groups_keys by auto
  finally show ?thesis .
qed

lemma sorted_wrt_concat_groups:
  "sorted_wrt (>) (ps :: int list) \<Longrightarrow> (\<And>p n. n \<in> set (G p) \<Longrightarrow> f n = p) \<Longrightarrow>
     sorted_wrt (\<lambda>a b. f a \<ge> f b) (concat (map G ps))"
proof (induction ps)
  case Nil
  then show ?case by simp
next
  case (Cons p ps)
  have 1: "sorted_wrt (\<lambda>a b. f a \<ge> f b) (G p)"
    using Cons.prems(2)[of _ p] by (auto simp: sorted_wrt_iff_nth_less)
  have 2: "sorted_wrt (\<lambda>a b. f a \<ge> f b) (concat (map G ps))"
    using Cons by simp
  have 3: "f b \<le> f a" if "a \<in> set (G p)" "q \<in> set ps" "b \<in> set (G q)" for a b q
  proof -
    have "f a = p" "f b = q" using that Cons.prems(2) by auto
    moreover have "q < p" using Cons.prems(1) that(2) by auto
    ultimately show ?thesis by simp
  qed
  show ?case
    using 1 2 3 by (auto simp: sorted_wrt_append)
qed

lemma sorted_reverse_desc: "sorted_wrt (>) (sorted_reverse (build_groups s changes))"
proof -
  have "distinct (sort (map fst (build_groups s changes)))"
    using build_groups_distinct by simp
  moreover have "sorted (sort (map fst (build_groups s changes)))" by simp
  ultimately have "sorted_wrt (<) (sort (map fst (build_groups s changes)))"
    by (simp add: strict_sorted_iff)
  then show ?thesis
    by (simp add: sorted_reverse_def sorted_wrt_rev)
qed

lemma processing_order_sorted:
  "sorted_wrt (\<lambda>a b. update_priority s a \<ge> update_priority s b) (processing_order s changes)"
  unfolding processing_order_def
  by (rule sorted_wrt_concat_groups[OF sorted_reverse_desc]) (simp add: build_groups_get)


subsection \<open>Running over a list of names\<close>

lemma fold_frame:
  "m \<notin> set ns \<Longrightarrow>
     map_of (props (final_state (foldl (update_name upd ch) out ns))) m
       = map_of (props (final_state out)) m"
  by (induction ns arbitrary: out) (simp_all add: update_name_frame)

lemma is_callback_property_keys:
  "is_callback_property s n \<longleftrightarrow> n \<in> set (map fst (props s))"
  by (simp add: is_callback_property_def map_of_eq_None_iff)

lemma fold_keys:
  "\<forall>n \<in> set ns. is_callback_property (final_state out) n \<Longrightarrow>
     map fst (props (final_state (foldl (update_name upd ch) out ns)))
       = map fst (props (final_state out))"
proof (induction ns arbitrary: out)
  case Nil
  then show ?case by simp
next
  case (Cons n ns)
  have k: "map fst (props (final_state (update_name upd ch out n)))
             = map fst (props (final_state out))"
    using Cons.prems by (simp add: update_name_keys)
  then have "\<forall>m \<in> set ns. is_callback_property (final_state (update_name upd ch out n)) m"
    using Cons.prems by (simp add: is_callback_property_keys)
  from Cons.IH[OF this] k show ?case by simp
qed

lemma fold_other_attrs:
  "other_attrs (final_state (foldl (update_name upd ch) out ns)) = other_attrs (final_state out)"
  by (induction ns arbitrary: out) (simp_all add: update_name_other_attrs)

lemma fold_priorities:
  "priorities (final_state (foldl (update_name upd ch) out ns)) = priorities (final_state out)"
  by (induction ns arbitrary: out) (simp_all add: update_name_priorities)

lemma fold_events:
  "sorted_wrt (\<lambda>a b. f a \<ge> (f b :: int)) ns \<Longrightarrow>
   \<exists>new. events (foldl (update_name upd ch) out ns) = events out @ new \<and>
         (\<forall>e \<in> set new. event_name e \<in> set ns) \<and>
         sorted_wrt (\<lambda>a b. f (event_name a) \<ge> f (event_name b)) new"
proof (induction ns arbitrary: out)
  case Nil
  then show ?case by simp
next
  case (Cons n ns)
  obtain new1 where n1: "events (update_name upd ch out n) = events out @ new1"
    "\<forall>e \<in> set new1. event_name e = n"
    using update_name_events by blast
  from Cons.prems have s: "sorted_wrt (\<lambda>a b. f a \<ge> f b) ns" and h: "\<forall>m \<in> set ns. f m \<le> f n"
    by simp_all
  from Cons.IH[OF s, of "update_name upd ch out n"] obtain new2 where n2:
    "events (foldl (update_name upd ch) (update_name upd ch out n) ns)
       = events (update_name upd ch out n) @ new2"
    "\<forall>e \<in> set new2. event_name e \<in> set ns"
    "sorted_wrt (\<lambda>a b. f (event_name a) \<ge> f (event_name b)) new2"
    by blast
  have "sorted_wrt (\<lambda>a b. f (event_name a) \<ge> f (event_name b)) new1"
    using n1(2) by (simp add: sorted_wrt_iff_nth_less)
  then have "sorted_wrt (\<lambda>a b. f (event_name a) \<ge> f (event_name b)) (new1 @ new2)"
    using n1(2) n2(2,3) h by (auto simp: sorted_wrt_append)
  moreover have "\<forall>e \<in> set (new1 @ new2). event_name e \<in> set (n # ns)"
    using n1(2) n2(2) by auto
  moreover have "events (foldl (update_name upd ch) out (n # ns)) = events out @ (new1 @ new2)"
    using n1(1) n2(1) by simp
  ultimately show ?case by blast
qed

lemma update_events:
  "sorted_wrt (\<lambda>a b. update_priority s (event_name a) \<ge> update_priority s (event_name b))
     (events (update_state_from_dict upd s changes)) \<and>
   (\<forall>e \<in> set (events (update_state_from_dict upd s changes)).
      event_name e \<in> fst ` set changes \<and> is_callback_property s (event_name e))"
proof -
  from fold_events[OF processing_order_sorted, where upd=upd and ch=changes
      and out="Outcome None s []"]
  show ?thesis
    by (auto simp: update_state_from_dict_order processing_order_set)
qed

lemma update_frame:
  assumes "name \<notin> fst ` set changes"
  shows "map_of (props (final_state (update_state_from_dict upd s changes))) name
           = map_of (props s) name"
proof -
  from assms have "name \<notin> set (processing_order s changes)"
    by (simp add: processing_order_set)
  from fold_frame[OF this] show ?thesis
    by (simp add: update_state_from_dict_order)
qed

lemma update_keys_unchanged:
  "map fst (props (final_state (update_state_from_dict upd s changes))) = map fst (props s)"
  using fold_keys[of "processing_order s changes" "Outcome None s []" upd changes]
  by (simp add: update_state_from_dict_order processing_order_set)

lemma update_other_attrs:
  "other_attrs (final_state (update_state_from_dict upd s changes)) = other_attrs s"
  by (simp add: update_state_from_dict_order fold_other_attrs)

lemma update_priorities:
  "priorities (final_state (update_state_from_dict upd s changes)) = priorities s"
  by (simp add: update_state_from_dict_order fold_priorities)

subsection \<open>Keys the state does not recognise\<close>

lemma build_groups_recognised_aux:
  "foldl (group_step s) g (map fst (recognised s changes))
     = foldl (group_step s) g (map fst changes)"
  by (induction changes arbitrary: g) (auto simp: recognised_def group_step_def)

lemma processing_order_recognised:
  "processing_order s (recognised s changes) = processing_order s changes"
  by (simp add: processing_order_def build_groups_def build_groups_recognised_aux)

lemma map_of_recognised:
  "is_callback_property s n \<Longrightarrow> map_of (recognised s changes) n = map_of changes n"
  by (induction changes) (auto simp: recognised_def)

lemma update_name_recognised:
  "is_callback_property s n \<Longrightarrow>
     update_name upd (recognised s changes) out n = update_name upd changes out n"
proof -
  assume "is_callback_property s n"
  then have "changes_get (recognised s changes) n = changes_get changes n"
    by (simp add: changes_get_def map_of_recognised)
  then show ?thesis
    unfolding update_name_def by (simp only:)
qed

lemma update_recognised:
  "update_state_from_dict upd s (recognised s changes) = update_state_from_dict upd s changes"
  unfolding update_state_from_dict_order processing_order_recognised
  by (rule foldl_cong) (simp_all add: processing_order_set update_name_recognised)

subsection \<open>Facts about the serialiser\<close>

lemma dir_py_set: "set (dir_py s) = fst ` set (props s) \<union> set (other_attrs s)"
  by (simp add: dir_py_def)

lemma is_callback_property_iff:
  "is_callback_property s n \<longleftrightarrow> n \<in> fst ` set (props s)"
  by (simp add: is_callback_property_def map_of_eq_None_iff)

lemma dir_py_distinct: "distinct (dir_py s)"
  by (simp add: dir_py_def)

lemma state_to_dict_keys:
  "map fst (state_to_dict s)
     = filter (\<lambda>name. \<not> startswith_underscore name \<and> is_callback_property s name) (dir_py s)"
  by (subst state_to_dict.simps) (simp add: comp_def)

lemma state_to_dict_lookup:
  assumes "is_callback_property s name" "\<not> startswith_underscore name"
  shows "map_of (state_to_dict s) name =
     Some (case getattr s name of
               VCallbackList xs \<Rightarrow>
                 VDict (map (\<lambda>(index, v). (KInt (int index),
                          (case v of VState t \<Rightarrow> str_dict (state_to_dict t) | _ \<Rightarrow> v)))
                        (enumerate 0 xs))
             | item \<Rightarrow> item)"
proof -
  have "name \<in> set (filter (\<lambda>name. \<not> startswith_underscore name \<and> is_callback_property s name) (dir_py s))"
    using assms by (auto simp: dir_py_set is_callback_property_iff)
  then show ?thesis
    by (subst state_to_dict.simps) (simp add: map_of_map_restrict)
qed

subsection \<open>Patching a collection\<close>


lemma update_items_dict_step:
  "i < length xs \<Longrightarrow>
   update_items upd name (VDict sub) (i # is) xs l = (None, ys, l') \<Longrightarrow>
   \<exists>l1. update_items upd name (VDict sub) is (xs[i := patched_item upd sub xs i]) l1
           = (None, ys, l')"
  by (auto simp: patched_item_def split: option.splits pyval.splits prod.splits if_splits)

lemma update_items_dict_items:
  "update_items upd name (VDict sub) is xs l = (None, ys, l') \<Longrightarrow>
   distinct is \<Longrightarrow> \<forall>i \<in> set is. i < length xs \<Longrightarrow> j < length xs \<Longrightarrow>
   ys ! j = (if j \<in> set is then patched_item upd sub xs j else xs ! j)"
proof (induction "is" arbitrary: xs l)
  case Nil
  then show ?case by simp
next
  case (Cons i "is")
  from Cons.prems have i: "i < length xs" "i \<notin> set is" by simp_all
  from update_items_dict_step[OF i(1) Cons.prems(1)] obtain l1 where
    r: "update_items upd name (VDict sub) is (xs[i := patched_item upd sub xs i]) l1
          = (None, ys, l')"
    by blast
  have "ys ! j = (if j \<in> set is then patched_item upd sub (xs[i := patched_item upd sub xs i]) j
                  else xs[i := patched_item upd sub xs i] ! j)"
    using Cons.IH[OF r] Cons.prems by simp
  moreover have "patched_item upd sub (xs[i := patched_item upd sub xs i]) j
                   = patched_item upd sub xs j" if "j \<in> set is"
  proof -
    from that i have "j \<noteq> i" by auto
    then have "xs[i := patched_item upd sub xs i] ! j = xs ! j" by simp
    then show ?thesis
      unfolding patched_item_def by (simp only:)
  qed
  ultimately show ?case
    using i Cons.prems(4) by auto
qed







subsection \<open>Serialising and patching back\<close>

lemma primitive_not_state: "primitive v \<Longrightarrow> \<not> is_State v"
  by (cases v) simp_all

lemma case_not_state: "\<not> is_State y \<Longrightarrow> (case y of VState t \<Rightarrow> A t | _ \<Rightarrow> B) = B"
  by (cases y) simp_all

lemma shape_None_iff: "shape v = None \<longleftrightarrow> (\<forall>xs. v \<noteq> VCallbackList xs)"
  by (cases v) simp_all

lemma shape_Some_iff: "shape v = Some n \<longleftrightarrow> (\<exists>xs. v = VCallbackList xs \<and> length xs = n)"
  by (cases v) auto

lemma case_no_collection:
  "shape v = None \<Longrightarrow> (case v of VCallbackList xs \<Rightarrow> A xs | _ \<Rightarrow> B) = B"
  by (cases v) simp_all

lemma primitive_property_scalar: "shape v = None \<Longrightarrow> primitive_property v = primitive v"
  by (cases v) simp_all

lemma list_all_update: "list_all P ys \<Longrightarrow> P v \<Longrightarrow> list_all P (ys[i := v])"
  using set_update_subset_insert[of ys i v] by (auto simp: list_all_iff)

lemma same_shape_lookup:
  "same_shape s f \<Longrightarrow>
     map_option shape (map_of (props f) n) = map_option shape (map_of (props s) n)"
proof -
  assume a: "same_shape s f"
  have "map_of (map (\<lambda>(name, v). (name, shape v)) ps) n = map_option shape (map_of ps n)" for ps
    by (induction ps) auto
  with a show ?thesis by (metis same_shape_def)
qed

lemma primitive_state_lookup:
  "primitive_state s \<Longrightarrow> map_of (props s) n = Some v \<Longrightarrow> primitive_property v"
  by (auto simp: primitive_state_def list_all_iff dest: map_of_SomeD)

lemma map_of_enumerate:
  "map_of (map (\<lambda>(index, v). (KInt (int index), g v)) (enumerate n xs)) (KInt (int k))
     = (if n \<le> k \<and> k < n + length xs then Some (g (xs ! (k - n))) else None)"
proof (induction xs arbitrary: n)
  case Nil
  then show ?case by simp
next
  case (Cons x xs)
  show ?case
  proof (cases "k = n")
    case True
    then show ?thesis by simp
  next
    case False
    then show ?thesis
      using Cons[of "Suc n"] by (auto simp: nth_Cons')
  qed
qed

lemma update_items_primitive:
  "list_all primitive ys \<Longrightarrow> \<forall>i \<in> set is. i < length ys \<Longrightarrow>
   \<forall>i \<in> set is. \<forall>v. map_of d (KInt (int i)) = Some v \<longrightarrow> primitive v \<Longrightarrow>
   \<exists>ys' l'. update_items upd n (VDict d) is ys l = (None, ys', l') \<and> list_all primitive ys'"
proof (induction "is" arbitrary: ys l)
  case Nil
  then show ?case by simp
next
  case (Cons i "is")
  from Cons.prems have i: "i < length ys" by simp
  with Cons.prems(1) have "primitive (ys ! i)" by (simp add: list_all_length)
  then have ns: "\<not> is_State (ys ! i)" by (rule primitive_not_state)
  show ?case
  proof (cases "map_of d (KInt (int i))")
    case None
    then have "update_items upd n (VDict d) (i # is) ys l = update_items upd n (VDict d) is ys l"
      by simp
    with Cons.IH[of ys l] Cons.prems show ?thesis by simp
  next
    case (Some v)
    with Cons.prems(3) have pv: "primitive v" by simp
    have "update_items upd n (VDict d) (i # is) ys l
            = update_items upd n (VDict d) is (ys[i := v]) (l @ [SetItem n i v])"
      using Some ns by (cases "ys ! i") simp_all
    moreover have "list_all primitive (ys[i := v])"
      using Cons.prems(1) pv by (rule list_all_update)
    ultimately show ?thesis
      using Cons.IH[of "ys[i := v]" "l @ [SetItem n i v]"] Cons.prems by simp
  qed
qed

lemma patch_invariant_initial:
  "same_shape s f \<Longrightarrow> primitive_state f \<Longrightarrow> patch_invariant s f"
  by (auto simp: patch_invariant_def same_shape_lookup dest: primitive_state_lookup)

lemma patch_invariant_setattr:
  assumes "patch_invariant s st" and "map_of (props s) m = Some sv"
    and "shape v = shape sv" and "primitive_property v"
  shows "patch_invariant s (setattr st m v)"
  using assms by (auto simp: patch_invariant_def lookup_setattr)

lemma map_of_enumerate0:
  "k < length xs \<Longrightarrow>
     map_of (map (\<lambda>(index, v). (KInt (int index), g v)) (enumerate 0 xs)) (KInt (int k))
       = Some (g (xs ! k))"
  by (simp add: map_of_enumerate)

lemma serialized_scalar:
  assumes "is_callback_property s m" and "\<not> startswith_underscore m"
    and "shape (getattr s m) = None"
  shows "changes_get (state_to_dict s) m = getattr s m"
  using state_to_dict_lookup[OF assms(1,2)] assms(3)
  by (cases "getattr s m") (simp_all add: changes_get_def)

lemma serialized_collection:
  assumes "is_callback_property s m" and "\<not> startswith_underscore m"
    and "getattr s m = VCallbackList xs" and "list_all primitive xs"
  shows "\<exists>d. changes_get (state_to_dict s) m = VDict d \<and>
             (\<forall>i<length xs. map_of d (KInt (int i)) = Some (xs ! i))"
proof -
  let ?g = "\<lambda>v. case v of VState t \<Rightarrow> str_dict (state_to_dict t) | _ \<Rightarrow> v"
  let ?d = "map (\<lambda>(index, v). (KInt (int index), ?g v)) (enumerate 0 xs)"
  have 1: "changes_get (state_to_dict s) m = VDict ?d"
    using state_to_dict_lookup[OF assms(1,2)] assms(3) by (simp add: changes_get_def)
  have 2: "map_of ?d (KInt (int i)) = Some (xs ! i)" if "i < length xs" for i
  proof -
    from that assms(4) have "primitive (xs ! i)" by (simp add: list_all_length)
    then have "?g (xs ! i) = xs ! i"
      by (intro case_not_state primitive_not_state)
    with that show ?thesis
      using map_of_enumerate0[of i xs ?g] by (simp only:)
  qed
  from 1 2 show ?thesis by blast
qed

lemma update_items_overwrite:
  assumes "list_all primitive ys" and "list_all primitive xs" and "length ys = length xs"
    and "\<forall>i<length xs. map_of d (KInt (int i)) = Some (xs ! i)"
  shows "\<exists>l'. update_items upd n (VDict d) [0..<length ys] ys l = (None, xs, l')"
proof -
  have a: "\<forall>i \<in> set [0..<length ys]. i < length ys" by simp
  have b: "\<forall>i \<in> set [0..<length ys]. \<forall>v. map_of d (KInt (int i)) = Some v \<longrightarrow> primitive v"
    using assms(2,3,4) by (auto simp: list_all_length)
  from update_items_primitive[OF assms(1) a b, of upd n l] obtain ys' l' where
    r: "update_items upd n (VDict d) [0..<length ys] ys l = (None, ys', l')"
    by blast
  have len: "length ys' = length xs"
    using update_items_length[OF r] assms(3) by simp
  have "ys' ! j = xs ! j" if "j < length xs" for j
  proof -
    have j: "j < length ys" using that assms(3) by simp
    have "distinct [0..<length ys]" by simp
    from update_items_dict_items[OF r this a j] j
    have "ys' ! j = patched_item upd d ys j" by simp
    moreover have "\<not> is_State (ys ! j)"
      using assms(1) j by (intro primitive_not_state) (simp add: list_all_length)
    ultimately show ?thesis
      using assms(4) that by (simp add: patched_item_def case_not_state)
  qed
  with len have "ys' = xs" by (intro nth_equalityI) simp_all
  with r show ?thesis by blast
qed

lemma update_name_round_trip:
  assumes ps: "primitive_state s"
    and inv: "patch_invariant s (final_state out)" and nr: "raised out = None"
    and m: "is_callback_property s m" "\<not> startswith_underscore m"
  shows "raised (update_name upd (state_to_dict s) out m) = None \<and>
         patch_invariant s (final_state (update_name upd (state_to_dict s) out m)) \<and>
         (getattr s m \<noteq> VStr MAGIC_IGNORE \<longrightarrow>
            getattr (final_state (update_name upd (state_to_dict s) out m)) m = getattr s m) \<and>
         (getattr s m = VStr MAGIC_IGNORE \<longrightarrow> update_name upd (state_to_dict s) out m = out)"
proof -
  let ?st = "final_state out"
  let ?ch = "state_to_dict s"
  from m(1) obtain sv where sv: "map_of (props s) m = Some sv"
    by (auto simp: is_callback_property_def)
  then have gs: "getattr s m = sv" by (simp add: getattr_def)
  from inv have "map_option shape (map_of (props ?st) m) = map_option shape (map_of (props s) m)"
    by (simp add: patch_invariant_def)
  with sv obtain v where v: "map_of (props ?st) m = Some v" and sh: "shape v = shape sv"
    by auto
  then have gv: "getattr ?st m = v" by (simp add: getattr_def)
  from ps sv have psv: "primitive_property sv" by (rule primitive_state_lookup)
  from inv v have pv: "primitive_property v" by (simp add: patch_invariant_def)
  show ?thesis
  proof (cases "shape sv")
    case None
    with sh have nv: "shape v = None" by simp
    from None gs have cg: "changes_get ?ch m = sv"
      using serialized_scalar[OF m] by simp
    show ?thesis
    proof (cases "sv = VStr MAGIC_IGNORE")
      case True
      then have "update_name upd ?ch out m = out"
        using nr gv nv cg by (simp add: update_name_def case_no_collection)
      with True gs nr inv show ?thesis by simp
    next
      case False
      then have u: "update_name upd ?ch out m
                   = Outcome None (setattr ?st m sv) (events out @ [SetAttr m sv])"
        using nr gv nv cg by (simp add: update_name_def case_no_collection)
      have "patch_invariant s (setattr ?st m sv)"
        using inv sv _ psv by (rule patch_invariant_setattr) simp
      with u False gs show ?thesis
        by (simp add: getattr_def lookup_setattr)
    qed
  next
    case (Some k)
    then obtain xs where xs: "sv = VCallbackList xs" "length xs = k"
      by (auto simp: shape_Some_iff)
    from Some sh obtain ys where ys: "v = VCallbackList ys" "length ys = k"
      by (auto simp: shape_Some_iff)
    from psv xs have pxs: "list_all primitive xs" by simp
    from pv ys have pys: "list_all primitive ys" by simp
    from serialized_collection[OF m _ pxs] gs xs obtain d where
      d: "changes_get ?ch m = VDict d" "\<forall>i<length xs. map_of d (KInt (int i)) = Some (xs ! i)"
      by auto
    from update_items_overwrite[OF pys pxs _ d(2), of upd m "events out"] xs ys obtain l' where
      r: "update_items upd m (VDict d) [0..<length ys] ys (events out) = (None, xs, l')"
      by auto
    have u: "update_name upd ?ch out m = Outcome None (setattr ?st m (VCallbackList xs)) l'"
      using nr gv ys d(1) r by (simp add: update_name_def)
    have "patch_invariant s (setattr ?st m (VCallbackList xs))"
      using inv sv _ _ by (rule patch_invariant_setattr) (simp_all add: xs pxs)
    with u gs xs show ?thesis
      by (simp add: getattr_def lookup_setattr)
  qed
qed

lemma fold_round_trip:
  assumes ps: "primitive_state s"
  shows "patch_invariant s (final_state out) \<Longrightarrow> raised out = None \<Longrightarrow>
     \<forall>m \<in> set ns. is_callback_property s m \<and> \<not> startswith_underscore m \<Longrightarrow>
     raised (foldl (update_name upd (state_to_dict s)) out ns) = None \<and>
     (\<forall>n. getattr s n \<noteq> VStr MAGIC_IGNORE \<longrightarrow>
          n \<in> set ns \<or> getattr (final_state out) n = getattr s n \<longrightarrow>
          getattr (final_state (foldl (update_name upd (state_to_dict s)) out ns)) n
            = getattr s n) \<and>
     (\<forall>n. getattr s n = VStr MAGIC_IGNORE \<or> n \<notin> set ns \<longrightarrow>
          map_of (props (final_state (foldl (update_name upd (state_to_dict s)) out ns))) n
            = map_of (props (final_state out)) n)"
proof (induction ns arbitrary: out)
  case Nil
  then show ?case by simp
next
  case (Cons m ns)
  let ?F = "update_name upd (state_to_dict s)"
  let ?o = "?F out m"
  from Cons.prems have m: "is_callback_property s m" "\<not> startswith_underscore m"
    and rest: "\<forall>k \<in> set ns. is_callback_property s k \<and> \<not> startswith_underscore k"
    by simp_all
  note step = update_name_round_trip[OF ps Cons.prems(1,2) m, of upd]
  note s1 = step[THEN conjunct1]
  note s2 = step[THEN conjunct2, THEN conjunct1]
  note s3 = step[THEN conjunct2, THEN conjunct2, THEN conjunct1, rule_format]
  note s4 = step[THEN conjunct2, THEN conjunct2, THEN conjunct2, rule_format]
  have fr: "map_of (props (final_state ?o)) n = map_of (props (final_state out)) n"
    if "n \<noteq> m" for n
    using that by (simp add: update_name_frame)
  note ih = Cons.IH[OF s2 s1 rest]
  note i1 = ih[THEN conjunct1]
  note i2 = ih[THEN conjunct2, THEN conjunct1, rule_format]
  note i3 = ih[THEN conjunct2, THEN conjunct2, rule_format]
  have c2: "getattr (final_state (foldl ?F ?o ns)) n = getattr s n"
    if a: "getattr s n \<noteq> VStr MAGIC_IGNORE"
      and b: "n \<in> set (m # ns) \<or> getattr (final_state out) n = getattr s n" for n
  proof (rule i2[OF a])
    show "n \<in> set ns \<or> getattr (final_state ?o) n = getattr s n"
    proof (cases "n \<in> set ns")
      case True
      then show ?thesis ..
    next
      case False
      show ?thesis
      proof (cases "n = m")
        case True
        with s3 a show ?thesis by simp
      next
        case nm: False
        with b False have "getattr (final_state out) n = getattr s n" by simp
        with fr[OF nm] show ?thesis by (simp add: getattr_def)
      qed
    qed
  qed
  have c3: "map_of (props (final_state (foldl ?F ?o ns))) n = map_of (props (final_state out)) n"
    if a: "getattr s n = VStr MAGIC_IGNORE \<or> n \<notin> set (m # ns)" for n
  proof -
    from a have "getattr s n = VStr MAGIC_IGNORE \<or> n \<notin> set ns" by auto
    from i3[OF this] have e: "map_of (props (final_state (foldl ?F ?o ns))) n
                 = map_of (props (final_state ?o)) n" .
    show ?thesis
    proof (cases "n = m")
      case True
      with a have "getattr s m = VStr MAGIC_IGNORE" by auto
      from s4[OF this] e show ?thesis by simp
    next
      case False
      from fr[OF this] e show ?thesis by simp
    qed
  qed
  show ?case
  proof (intro conjI allI impI)
    show "raised (foldl ?F out (m # ns)) = None" using i1 by simp
  next
    fix n
    assume "getattr s n \<noteq> VStr MAGIC_IGNORE"
      and "n \<in> set (m # ns) \<or> getattr (final_state out) n = getattr s n"
    then show "getattr (final_state (foldl ?F out (m # ns))) n = getattr s n"
      using c2[of n] by simp
  next
    fix n
    assume "getattr s n = VStr MAGIC_IGNORE \<or> n \<notin> set (m # ns)"
    then show "map_of (props (final_state (foldl ?F out (m # ns)))) n
                 = map_of (props (final_state out)) n"
      using c3[of n] by simp
  qed
qed

lemma same_shape_callback:
  "same_shape s f \<Longrightarrow> is_callback_property f n = is_callback_property s n"
  using same_shape_lookup[of s f n]
  by (cases "map_of (props f) n"; cases "map_of (props s) n")
     (simp_all add: is_callback_property_def)

lemma state_to_dict_key_set:
  "fst ` set (state_to_dict s)
     = {n. is_callback_property s n \<and> \<not> startswith_underscore n}"
proof -
  have "fst ` set (state_to_dict s) = set (map fst (state_to_dict s))" by simp
  also have "\<dots> = {n. is_callback_property s n \<and> \<not> startswith_underscore n}"
    unfolding state_to_dict_keys by (auto simp: dir_py_set is_callback_property_iff)
  finally show ?thesis .
qed

lemma round_trip_processing_order:
  assumes "same_shape s f"
  shows "set (processing_order f (state_to_dict s))
           = {n. is_callback_property s n \<and> \<not> startswith_underscore n}"
  unfolding processing_order_set state_to_dict_key_set
  by (auto simp: same_shape_callback[OF assms])

lemma round_trip_values:
  assumes "primitive_state s" and "primitive_state f" and "same_shape s f"
    and "is_callback_property s name"
  shows "raised (update_state_from_dict upd f (state_to_dict s)) = None \<and>
         (\<not> startswith_underscore name \<and> getattr s name \<noteq> VStr MAGIC_IGNORE \<longrightarrow>
            getattr (final_state (update_state_from_dict upd f (state_to_dict s))) name
              = getattr s name) \<and>
         (startswith_underscore name \<or> getattr s name = VStr MAGIC_IGNORE \<longrightarrow>
            getattr (final_state (update_state_from_dict upd f (state_to_dict s))) name
              = getattr f name)"
proof -
  let ?ns = "processing_order f (state_to_dict s)"
  let ?F = "update_name upd (state_to_dict s)"
  let ?out = "update_state_from_dict upd f (state_to_dict s)"
  have out: "?out = foldl ?F (Outcome None f []) ?ns"
    by (rule update_state_from_dict_order)
  have ns: "set ?ns = {n. is_callback_property s n \<and> \<not> startswith_underscore n}"
    using assms(3) by (rule round_trip_processing_order)
  have inv: "patch_invariant s (final_state (Outcome None f []))"
    using assms(3,2) by (simp add: patch_invariant_initial)
  have nr: "raised (Outcome None f []) = None" by simp
  have all: "\<forall>m \<in> set ?ns. is_callback_property s m \<and> \<not> startswith_underscore m"
    using ns by simp
  note r = fold_round_trip[OF assms(1) inv nr all, of upd, folded out]
  note r1 = r[THEN conjunct1]
  note r2 = r[THEN conjunct2, THEN conjunct1, rule_format]
  note r3 = r[THEN conjunct2, THEN conjunct2, rule_format]
  have a: "getattr (final_state ?out) name = getattr s name"
    if u: "\<not> startswith_underscore name" and g: "getattr s name \<noteq> VStr MAGIC_IGNORE"
  proof (rule r2[OF g])
    from u assms(4) ns have "name \<in> set ?ns" by simp
    then show "name \<in> set ?ns \<or> getattr (final_state (Outcome None f [])) name = getattr s name"
      ..
  qed
  have b: "getattr (final_state ?out) name = getattr f name"
    if "startswith_underscore name \<or> getattr s name = VStr MAGIC_IGNORE"
  proof -
    from that ns have "getattr s name = VStr MAGIC_IGNORE \<or> name \<notin> set ?ns" by auto
    from r3[OF this] show ?thesis by (simp add: getattr_def)
  qed
  show ?thesis
  proof (intro conjI impI)
    show "raised ?out = None" by (rule r1)
  next
    assume "\<not> startswith_underscore name \<and> getattr s name \<noteq> VStr MAGIC_IGNORE"
    then show "getattr (final_state ?out) name = getattr s name" using a by simp
  next
    assume "startswith_underscore name \<or> getattr s name = VStr MAGIC_IGNORE"
    then show "getattr (final_state ?out) name = getattr f name" by (rule b)
  qed
qed

text \<open>The definitions that evaluate a call on a concrete state and record.\<close>

lemmas run_defs = update_state_from_dict_def build_groups_def group_step_def
  is_callback_property_def update_priority_def sorted_reverse_def groups_get_def
  update_name_def getattr_def changes_get_def setattr_def

section \<open>The claims\<close>

text \<open>
  C1. The sentinel string as incoming value is never assigned onto live state, neither as
  the value of a scalar-valued property nor at a position inside the sub-mapping of a
  collection-valued property. The source guards the scalar branch only (line 52): for the
  live collection \<^verbatim>\<open>[1]\<close> under \<^verbatim>\<open>xs\<close> and the record
  \<^verbatim>\<open>{'xs': {0: MAGIC_IGNORE}}\<close>, line 50 stores the sentinel at position 0.
\<close>

theorem sentinel_assigned_in_collection:
  "update_state_from_dict upd (State [(''xs'', VCallbackList [VInt 1])] [] [])
       [(''xs'', VDict [(KInt 0, VStr MAGIC_IGNORE)])]
     = Outcome None (State [(''xs'', VCallbackList [VStr MAGIC_IGNORE])] [] [])
         [SetItem ''xs'' 0 (VStr MAGIC_IGNORE)]"
  by (simp add: run_defs)



text \<open>
  C3. Round trip: \<open>s\<close> holds primitive values only, \<open>f\<close> is a state object of the same
  shape that holds primitive values only, and \<open>f\<close> is patched with the serialisation of
  \<open>s\<close>. The call raises nothing. A property whose name does not start with an underscore
  and whose value in \<open>s\<close> is not the sentinel string has, in the end, the value it has in
  \<open>s\<close>. A property whose name starts with an underscore (it is not serialised, line 22)
  or whose value in \<open>s\<close> is the sentinel string (it is not assigned, line 52) keeps the value
  it has in \<open>f\<close>.
\<close>

theorem round_trip:
  assumes "primitive_state s" and "primitive_state f" and "same_shape s f"
    and "is_callback_property s name"
  shows "raised (update_state_from_dict upd f (state_to_dict s)) = None \<and>
         (\<not> startswith_underscore name \<and> getattr s name \<noteq> VStr MAGIC_IGNORE \<longrightarrow>
            getattr (final_state (update_state_from_dict upd f (state_to_dict s))) name
              = getattr s name) \<and>
         (startswith_underscore name \<or> getattr s name = VStr MAGIC_IGNORE \<longrightarrow>
            getattr (final_state (update_state_from_dict upd f (state_to_dict s))) name
              = getattr f name)"
  using assms by (rule round_trip_values)

theorem round_trip_witness:
  "primitive_state (State [(''alpha'', VInt 3), (''label'', VStr ''hi''),
                          (''sizes'', VCallbackList [VInt 1, VInt 2])] [] [(''label'', 5)]) \<and>
   primitive_state (State [(''alpha'', VInt 0), (''label'', VStr []),
                          (''sizes'', VCallbackList [VInt 0, VInt 0])] [] [(''label'', 5)]) \<and>
   same_shape (State [(''alpha'', VInt 3), (''label'', VStr ''hi''),
                      (''sizes'', VCallbackList [VInt 1, VInt 2])] [] [(''label'', 5)])
              (State [(''alpha'', VInt 0), (''label'', VStr []),
                      (''sizes'', VCallbackList [VInt 0, VInt 0])] [] [(''label'', 5)]) \<and>
   is_callback_property (State [(''alpha'', VInt 3), (''label'', VStr ''hi''),
                      (''sizes'', VCallbackList [VInt 1, VInt 2])] [] [(''label'', 5)]) ''sizes'' \<and>
   \<not> startswith_underscore ''sizes'' \<and>
   getattr (State [(''alpha'', VInt 3), (''label'', VStr ''hi''),
                   (''sizes'', VCallbackList [VInt 1, VInt 2])] [] [(''label'', 5)]) ''sizes''
     \<noteq> VStr MAGIC_IGNORE \<and>
   getattr (final_state (update_state_from_dict (\<lambda>t v. (t, None))
        (State [(''alpha'', VInt 0), (''label'', VStr []),
                (''sizes'', VCallbackList [VInt 0, VInt 0])] [] [(''label'', 5)])
        (state_to_dict (State [(''alpha'', VInt 3), (''label'', VStr ''hi''),
                   (''sizes'', VCallbackList [VInt 1, VInt 2])] [] [(''label'', 5)])))) ''sizes''
     = VCallbackList [VInt 1, VInt 2]"
proof -
  let ?s = "State [(''alpha'', VInt 3), (''label'', VStr ''hi''),
                   (''sizes'', VCallbackList [VInt 1, VInt 2])] [] [(''label'', 5)]"
  let ?f = "State [(''alpha'', VInt 0), (''label'', VStr []),
                   (''sizes'', VCallbackList [VInt 0, VInt 0])] [] [(''label'', 5)]"
  have 1: "primitive_state ?s" by (simp add: primitive_state_def)
  have 2: "primitive_state ?f" by (simp add: primitive_state_def)
  have 3: "same_shape ?s ?f" by (simp add: same_shape_def)
  have 4: "is_callback_property ?s ''sizes''" by (simp add: is_callback_property_def)
  have 5: "\<not> startswith_underscore ''sizes''" by simp
  have 6: "getattr ?s ''sizes'' = VCallbackList [VInt 1, VInt 2]" by (simp add: getattr_def)
  then have 7: "getattr ?s ''sizes'' \<noteq> VStr MAGIC_IGNORE" by simp
  from round_trip[OF 1 2 3 4, of "\<lambda>t v. (t, None)"] 5 6 7
  have "getattr (final_state (update_state_from_dict (\<lambda>t v. (t, None)) ?f (state_to_dict ?s)))
          ''sizes'' = VCallbackList [VInt 1, VInt 2]"
    by simp
  with 1 2 3 4 5 7 show ?thesis by (intro conjI)
qed

text \<open>
  C3 as stated promises the value of \<open>s\<close> for every property. Here \<^verbatim>\<open>x\<close> holds the
  sentinel string and \<^verbatim>\<open>_y\<close> starts with an underscore: neither is reproduced.
\<close>

theorem round_trip_counterexample:
  "primitive_state (State [(''x'', VStr MAGIC_IGNORE), (''_y'', VInt 1)] [] []) \<and>
   primitive_state (State [(''x'', VStr []), (''_y'', VInt 0)] [] []) \<and>
   same_shape (State [(''x'', VStr MAGIC_IGNORE), (''_y'', VInt 1)] [] [])
              (State [(''x'', VStr []), (''_y'', VInt 0)] [] []) \<and>
   getattr (final_state (update_state_from_dict (\<lambda>t v. (t, None))
              (State [(''x'', VStr []), (''_y'', VInt 0)] [] [])
              (state_to_dict (State [(''x'', VStr MAGIC_IGNORE), (''_y'', VInt 1)] [] [])))) ''x''
     \<noteq> getattr (State [(''x'', VStr MAGIC_IGNORE), (''_y'', VInt 1)] [] []) ''x'' \<and>
   getattr (final_state (update_state_from_dict (\<lambda>t v. (t, None))
              (State [(''x'', VStr []), (''_y'', VInt 0)] [] [])
              (state_to_dict (State [(''x'', VStr MAGIC_IGNORE), (''_y'', VInt 1)] [] [])))) ''_y''
     \<noteq> getattr (State [(''x'', VStr MAGIC_IGNORE), (''_y'', VInt 1)] [] []) ''_y''"
proof -
  let ?s = "State [(''x'', VStr MAGIC_IGNORE), (''_y'', VInt 1)] [] []"
  let ?f = "State [(''x'', VStr []), (''_y'', VInt 0)] [] []"
  let ?out = "update_state_from_dict (\<lambda>t v. (t, None)) ?f (state_to_dict ?s)"
  have 1: "primitive_state ?s" by (simp add: primitive_state_def)
  have 2: "primitive_state ?f" by (simp add: primitive_state_def)
  have 3: "same_shape ?s ?f" by (simp add: same_shape_def)
  have x: "is_callback_property ?s ''x''" and y: "is_callback_property ?s ''_y''"
    by (simp_all add: is_callback_property_def)
  have gx: "getattr ?s ''x'' = VStr MAGIC_IGNORE" and gy: "getattr ?s ''_y'' = VInt 1"
    and fx: "getattr ?f ''x'' = VStr []" and fy: "getattr ?f ''_y'' = VInt 0"
    by (simp_all add: getattr_def)
  from round_trip_values[OF 1 2 3 x, of "\<lambda>t v. (t, None)"] gx fx
  have a: "getattr (final_state ?out) ''x'' = VStr []" by simp
  from round_trip_values[OF 1 2 3 y, of "\<lambda>t v. (t, None)"] fy
  have b: "getattr (final_state ?out) ''_y'' = VInt 0" by simp
  have c: "VStr [] \<noteq> VStr MAGIC_IGNORE" by (simp add: MAGIC_IGNORE_def)
  have d: "getattr (final_state ?out) ''x'' \<noteq> getattr ?s ''x''"
    unfolding a gx by (rule c)
  have e: "getattr (final_state ?out) ''_y'' \<noteq> getattr ?s ''_y''"
    unfolding b gy by simp
  from 1 2 3 d e show ?thesis by (intro conjI)
qed




text \<open>
  C5. A property whose name is not a key of the record keeps its value and is the subject
  of no assignment; for the empty record the call returns at once, with no assignment at
  all and the state as it was.
\<close>

theorem patch_frame:
  assumes "name \<notin> fst ` set changes"
  shows "is_callback_property (final_state (update_state_from_dict upd s changes)) name
           = is_callback_property s name \<and>
         getattr (final_state (update_state_from_dict upd s changes)) name = getattr s name \<and>
         (\<forall>e \<in> set (events (update_state_from_dict upd s changes)). event_name e \<noteq> name) \<and>
         update_state_from_dict upd s [] = Outcome None s []"
proof -
  have "\<forall>e \<in> set (events (update_state_from_dict upd s changes)). event_name e \<noteq> name"
    using update_events[of s upd changes] assms by blast
  moreover have "update_state_from_dict upd s [] = Outcome None s []"
    by (simp add: update_state_from_dict_def)
  ultimately show ?thesis
    using update_frame[OF assms, of upd s]
    by (simp add: is_callback_property_def getattr_def)
qed

theorem patch_frame_witness:
  "''b'' \<notin> fst ` set [(''a'', VInt 7)] \<and>
   getattr (final_state (update_state_from_dict (\<lambda>t v. (t, None))
      (State [(''a'', VInt 1), (''b'', VInt 2)] [] []) [(''a'', VInt 7)])) ''b'' = VInt 2 \<and>
   getattr (final_state (update_state_from_dict (\<lambda>t v. (t, None))
      (State [(''a'', VInt 1), (''b'', VInt 2)] [] []) [(''a'', VInt 7)])) ''a'' = VInt 7"
proof -
  have h: "''b'' \<notin> fst ` set [(''a'', VInt 7)]" by simp
  from patch_frame[OF h, of "\<lambda>t v. (t, None)" "State [(''a'', VInt 1), (''b'', VInt 2)] [] []"]
  show ?thesis
    by (simp add: run_defs)
qed

text \<open>
  C6. Keys that the state does not recognise as callback properties are ignored: the call
  does exactly what it does on the record without them (the same error or none, the same
  final state, the same assignments), it creates no property, and a record of unknown
  keys only leaves the state as it was and raises nothing.
\<close>

theorem unknown_keys_ignored:
  "update_state_from_dict upd s changes
     = update_state_from_dict upd s (filter (\<lambda>(name, v). is_callback_property s name) changes) \<and>
   map fst (props (final_state (update_state_from_dict upd s changes))) = map fst (props s) \<and>
   dir_py (final_state (update_state_from_dict upd s changes)) = dir_py s \<and>
   ((\<forall>name \<in> fst ` set changes. \<not> is_callback_property s name) \<longrightarrow>
      update_state_from_dict upd s changes = Outcome None s [])"
proof -
  have 1: "update_state_from_dict upd s changes
     = update_state_from_dict upd s (filter (\<lambda>(name, v). is_callback_property s name) changes)"
    using update_recognised[of upd s changes] by (simp add: recognised_def)
  have 2: "map fst (props (final_state (update_state_from_dict upd s changes))) = map fst (props s)"
    by (rule update_keys_unchanged)
  have 3: "dir_py (final_state (update_state_from_dict upd s changes)) = dir_py s"
    by (simp add: dir_py_def 2 update_other_attrs)
  have 4: "update_state_from_dict upd s changes = Outcome None s []"
    if "\<forall>name \<in> fst ` set changes. \<not> is_callback_property s name"
  proof -
    from that have "filter (\<lambda>(name, v). is_callback_property s name) changes = []"
      by (auto simp: filter_empty_conv)
    with 1 show ?thesis by (simp add: update_state_from_dict_def)
  qed
  from 1 2 3 4 show ?thesis by blast
qed

theorem unknown_keys_ignored_witness:
  "\<not> is_callback_property (State [(''a'', VInt 1)] [''as_dict''] []) ''doesNotExist'' \<and>
   update_state_from_dict (\<lambda>t v. (t, None)) (State [(''a'', VInt 1)] [''as_dict''] [])
      [(''doesNotExist'', VInt 5)]
     = Outcome None (State [(''a'', VInt 1)] [''as_dict''] []) []"
proof -
  have h: "\<not> is_callback_property (State [(''a'', VInt 1)] [''as_dict''] []) ''doesNotExist''"
    by (simp add: is_callback_property_def)
  then have "\<forall>name \<in> fst ` set [(''doesNotExist'', VInt 5)].
      \<not> is_callback_property (State [(''a'', VInt 1)] [''as_dict''] []) name"
    by simp
  with unknown_keys_ignored[of "\<lambda>t v. (t, None)" "State [(''a'', VInt 1)] [''as_dict''] []"
      "[(''doesNotExist'', VInt 5)]"] h
  show ?thesis by blast
qed

text \<open>
  C7. The keys of the mapping that \<^verbatim>\<open>state_to_dict\<close> returns are exactly the names of
  the callback properties of the state that do not start with an underscore, each once.
\<close>

theorem serializer_keys:
  "set (map fst (state_to_dict s))
     = {name. is_callback_property s name \<and> \<not> startswith_underscore name} \<and>
   distinct (map fst (state_to_dict s))"
  by (auto simp add: state_to_dict_keys dir_py_set dir_py_distinct is_callback_property_iff)

text \<open>
  C8. A collection-valued property is serialised to a mapping from the positions
  \<open>0, 1, \<dots>\<close> to the items, an item that is a state object being serialised in turn,
  and an empty collection to the empty mapping. This holds for the properties that are
  serialised at all, those whose name does not start with an underscore (line 22).
\<close>

theorem collection_serialisation:
  assumes "is_callback_property s name" and "\<not> startswith_underscore name"
    and "getattr s name = VCallbackList xs"
  shows "map_of (state_to_dict s) name
           = Some (VDict (map (\<lambda>(index, v). (KInt (int index),
                      (case v of VState t \<Rightarrow> str_dict (state_to_dict t) | _ \<Rightarrow> v)))
                    (enumerate 0 xs))) \<and>
         (xs = [] \<longrightarrow> map_of (state_to_dict s) name = Some (VDict []))"
  using state_to_dict_lookup[OF assms(1,2)] assms(3) by auto

theorem collection_serialisation_witness:
  "is_callback_property (State [(''xs'', VCallbackList [VInt 7, VState (State [(''a'', VInt 3)] [] [])]),
        (''ys'', VCallbackList [])] [] []) ''xs'' \<and>
   \<not> startswith_underscore ''xs'' \<and>
   getattr (State [(''xs'', VCallbackList [VInt 7, VState (State [(''a'', VInt 3)] [] [])]),
        (''ys'', VCallbackList [])] [] []) ''xs''
     = VCallbackList [VInt 7, VState (State [(''a'', VInt 3)] [] [])] \<and>
   map_of (state_to_dict (State [(''xs'', VCallbackList [VInt 7, VState (State [(''a'', VInt 3)] [] [])]),
        (''ys'', VCallbackList [])] [] [])) ''xs''
     = Some (VDict [(KInt 0, VInt 7), (KInt 1, VDict [(KStr ''a'', VInt 3)])])"
proof -
  let ?t = "State [(''a'', VInt 3)] [] []"
  let ?s = "State [(''xs'', VCallbackList [VInt 7, VState ?t]), (''ys'', VCallbackList [])] [] []"
  have 1: "is_callback_property ?s ''xs''" by (simp add: is_callback_property_def)
  have 2: "\<not> startswith_underscore ''xs''" by simp
  have 3: "getattr ?s ''xs'' = VCallbackList [VInt 7, VState ?t]" by (simp add: getattr_def)
  have 4: "state_to_dict ?t = [(''a'', VInt 3)]"
    by (subst state_to_dict.simps) (simp add: is_callback_property_def getattr_def dir_py_def)
  from collection_serialisation[OF 1 2 3] 1 2 3 4 show ?thesis
    by (simp add: str_dict_def enumerate_eq_zip upt_rec)
qed

text \<open>
  C8 as stated speaks of every collection-valued property. The empty collection under
  \<^verbatim>\<open>_xs\<close> is a callback property and has no key in the result.
\<close>

theorem underscore_collection_counterexample:
  "is_callback_property (State [(''_xs'', VCallbackList [])] [] []) ''_xs'' \<and>
   getattr (State [(''_xs'', VCallbackList [])] [] []) ''_xs'' = VCallbackList [] \<and>
   map_of (state_to_dict (State [(''_xs'', VCallbackList [])] [] [])) ''_xs'' = None"
  by (subst state_to_dict.simps) (simp add: is_callback_property_def getattr_def dir_py_def)

text \<open>
  C9. \<^verbatim>\<open>GlueState.validate\<close> returns the value as it is when it is \<^verbatim>\<open>None\<close> or a
  state object, and raises a \<^verbatim>\<open>TraitError\<close> for any other value. The message of the
  error is \<^verbatim>\<open>value should be a glue State instance\<close>.
\<close>

theorem validate_accepts_none_or_state:
  "(v = VNone \<or> is_State v \<longrightarrow> GlueState_validate v = Inr v) \<and>
   (v \<noteq> VNone \<and> \<not> is_State v \<longrightarrow>
      GlueState_validate v = Inl (TraitError ''value should be a glue State instance''))"
  by (simp add: GlueState_validate_def)

theorem validate_accepts_none_or_state_witness:
  "GlueState_validate VNone = Inr VNone \<and>
   is_State (VState (State [] [] [])) \<and>
   GlueState_validate (VState (State [] [] [])) = Inr (VState (State [] [] [])) \<and>
   VStr ''x'' \<noteq> VNone \<and> \<not> is_State (VStr ''x'') \<and>
   GlueState_validate (VStr ''x'')
     = Inl (TraitError ''value should be a glue State instance'')"
  using validate_accepts_none_or_state[of VNone]
    validate_accepts_none_or_state[of "VState (State [] [] [])"]
    validate_accepts_none_or_state[of "VStr ''x''"]
  by simp

text \<open>
  C9 as stated gives the message as \<^verbatim>\<open>value should be a state instance\<close>, which is
  not the message of line 83.
\<close>

theorem validate_message_counterexample:
  "GlueState_validate (VInt 5) \<noteq> Inl (TraitError ''value should be a state instance'')"
  by (simp add: GlueState_validate_def)

text \<open>
  C10. Assigning \<^verbatim>\<open>None\<close> to a \<^verbatim>\<open>GlueState\<close> slot passes validation, stores
  \<^verbatim>\<open>None\<close> and then raises, since line 91 has no guard; the call completes without an
  error, and the callback is registered, exactly when the value is a state object.
\<close>

theorem set_none_raises:
  "GlueState_set old VNone = SetOutcome (Some AttributeError) VNone False \<and>
   (set_raised (GlueState_set old v) = None) = is_State v \<and>
   callback_registered (GlueState_set old v) = is_State v"
  by (cases v) (simp_all add: GlueState_set_def GlueState_validate_def)

end
